theory Spec2Isabelle
  imports Main
begin

section \<open>DICOM specific character sets: the decoder of charset.cpp\<close>

text \<open>
  A shallow embedding of \<^verbatim>\<open>src/io/itk-dicom/charset.cpp\<close>. Byte strings
  (\<^verbatim>\<open>std::string\<close>, \<^verbatim>\<open>const char *\<close> with a length) are
  \<^typ>\<open>string\<close>, a list of 8-bit characters. Sizes and offsets (\<^verbatim>\<open>size_t\<close>)
  are \<^typ>\<open>nat\<close>; the one \<^verbatim>\<open>int\<close> that holds a size is modelled with its
  32 bits. What ends a call other than its return is a value of \<open>fault\<close>.
\<close>

subsection \<open>Bytes and faults\<close>

definition ESC :: char where
  "ESC = CHR 0x1B"

definition NUL :: char where
  "NUL = CHR 0x00"

text \<open>
  \<^verbatim>\<open>std::isspace\<close> in the "C" locale: space, and the controls 0x09 to 0x0D. A
  byte from 0x80 on is not a space here, as in the C library's table.
\<close>

definition isspace :: "char \<Rightarrow> bool" where
  "isspace c = (c = CHR '' '' \<or> c = CHR 0x09 \<or> c = CHR 0x0A \<or> c = CHR 0x0B
                \<or> c = CHR 0x0C \<or> c = CHR 0x0D)"

text \<open>The string a \<^verbatim>\<open>const char *\<close> denotes: the bytes before the first NUL.\<close>

definition c_str :: "string \<Rightarrow> string" where
  "c_str s = takeWhile (\<lambda>c. c \<noteq> NUL) s"

text \<open>
  \<^item> \<open>LengthError\<close>: \<^verbatim>\<open>std::length_error\<close>, thrown by the range constructor
    of \<^verbatim>\<open>std::string\<close> when the range ends before it begins;
  \<^item> \<open>BadAlloc\<close>: \<^verbatim>\<open>std::bad_alloc\<close> (its subclass for a negative array
    size), thrown by \<^verbatim>\<open>new char[n]\<close>;
  \<^item> \<open>OutOfBounds\<close>: a read of memory that the input never filled and whose
    content nothing in the program fixes (an element of an empty vector, bytes past
    the copied input).
  None of the three is caught in this file.
\<close>

datatype fault = LengthError | BadAlloc | OutOfBounds

subsection \<open>findEsc\<close>

text \<open>
  \<^verbatim>\<open>while (pos < len && str[pos] != 0x1b) ++pos; return pos;\<close>
\<close>

function findEsc :: "string \<Rightarrow> nat \<Rightarrow> nat \<Rightarrow> nat" where
  "findEsc str len pos =
     (if pos < len \<and> str ! pos \<noteq> ESC then findEsc str len (pos + 1) else pos)"
  by pat_completeness auto
termination
  by (relation "measure (\<lambda>(str, len, pos). len - pos)") auto

subsection \<open>trimWhitespace and normalizeTerm\<close>

text \<open>
  The iterators \<^verbatim>\<open>start\<close> and \<^verbatim>\<open>end\<close> are offsets from
  \<^verbatim>\<open>term.begin()\<close>. The first loop,
  \<^verbatim>\<open>while (start != end && std::isspace(*start)) ++start;\<close>,
  starts at 0 and steps by one up to \<^verbatim>\<open>end\<close>, the length, so
  \<^verbatim>\<open>start != end\<close> is \<open>start < length term\<close> throughout.
\<close>

function trim_start :: "string \<Rightarrow> nat \<Rightarrow> nat" where
  "trim_start term start =
     (if start < length term \<and> isspace (term ! start) then trim_start term (start + 1)
      else start)"
  by pat_completeness auto
termination
  by (relation "measure (\<lambda>(term, start). length term - start)") auto

text \<open>
  The second loop, \<^verbatim>\<open>do { --end; } while (end != start && std::isspace(*end));\<close>.
  It decrements before it tests, so \<^verbatim>\<open>end\<close> is an integer here: on a token
  with no character that is not a space it steps to \<open>-1\<close>, and \<^verbatim>\<open>*end\<close> is
  read one byte before the first character. That byte is not part of the string: it
  is the last byte of what the string keeps in front of its characters (its length, or
  the allocator's block size), a 0 byte for every token this program can hold, and 0
  is not a space: the loop stops there. The result is the offset at which the loop
  stops, and whether it read that byte.
\<close>

function trim_end :: "string \<Rightarrow> nat \<Rightarrow> int \<Rightarrow> int \<times> bool" where
  "trim_end term start e =
     (let e' = e - 1 in
      if e' \<noteq> int start then
        (if e' < 0 \<or> int (length term) \<le> e' then (e', True)
         else if isspace (term ! nat e') then trim_end term start e'
         else (e', False))
      else (e', False))"
  by pat_completeness auto
termination
  by (relation "measure (\<lambda>(term, start, e). nat e)") auto

text \<open>
  \<^verbatim>\<open>return std::string(start, end + 1);\<close> The range constructor throws
  \<^verbatim>\<open>std::length_error\<close> when \<open>end + 1\<close> is before \<open>start\<close> (the distance,
  as a size, is then beyond the greatest length of a string). The result of the call
  is what it returns or throws, and whether it read the byte before the first
  character.
\<close>

record trim_result =
  trimmed :: "fault + string"
  read_before_begin :: bool

definition trimWhitespace :: "string \<Rightarrow> trim_result" where
  "trimWhitespace term =
     (let start = trim_start term 0;
          (e, before) = trim_end term start (int (length term))
      in \<lparr> trimmed =
             (if int start \<le> e + 1 then Inr (take (nat (e + 1) - start) (drop start term))
              else Inl LengthError),
           read_before_begin = before \<rparr>)"

definition normalizeTerm :: "string \<Rightarrow> trim_result" where
  "normalizeTerm term = trimWhitespace term"


declare findEsc.simps [simp del]
declare trim_start.simps [simp del]
declare trim_end.simps [simp del]

subsection \<open>The catalogue: defined term to converter charset\<close>

definition DEFAULT_ENCODING :: string where
  "DEFAULT_ENCODING = ''ISO_IR 6''"

definition DEFAULT_ISO_2022_ENCODING :: string where
  "DEFAULT_ISO_2022_ENCODING = ''ISO 2022 IR 6''"

definition ASCII :: string where
  "ASCII = ''ASCII''"

text \<open>
  \<^verbatim>\<open>definedTermToIconvCharset\<close>: exact comparison, in the order of the source;
  \<open>None\<close> is \<^verbatim>\<open>nullptr\<close>. The source returns the pointer
  \<^verbatim>\<open>ASCII\<close> for the two default terms only, and no other branch returns the
  text "ASCII", so the caller's pointer test \<^verbatim>\<open>chname != ASCII\<close> is a test
  on the text.
\<close>

definition definedTermToIconvCharset :: "string \<Rightarrow> string option" where
  "definedTermToIconvCharset defTerm =
     (if defTerm = ''ISO_IR 6'' \<or> defTerm = ''ISO 2022 IR 6'' then Some ASCII
      else if defTerm = ''ISO_IR 100'' \<or> defTerm = ''ISO 2022 IR 100'' then Some ''ISO-8859-1''
      else if defTerm = ''ISO_IR 101'' \<or> defTerm = ''ISO 2022 IR 101'' then Some ''ISO-8859-2''
      else if defTerm = ''ISO_IR 109'' \<or> defTerm = ''ISO 2022 IR 109'' then Some ''ISO-8859-3''
      else if defTerm = ''ISO_IR 110'' \<or> defTerm = ''ISO 2022 IR 110'' then Some ''ISO-8859-4''
      else if defTerm = ''ISO_IR 144'' \<or> defTerm = ''ISO 2022 IR 144'' then Some ''ISO-8859-5''
      else if defTerm = ''ISO_IR 127'' \<or> defTerm = ''ISO 2022 IR 127'' then Some ''ISO-8859-6''
      else if defTerm = ''ISO_IR 126'' \<or> defTerm = ''ISO 2022 IR 126'' then Some ''ISO-8859-7''
      else if defTerm = ''ISO_IR 138'' \<or> defTerm = ''ISO 2022 IR 138'' then Some ''ISO-8859-8''
      else if defTerm = ''ISO_IR 148'' \<or> defTerm = ''ISO 2022 IR 148'' then Some ''ISO-8859-9''
      else if defTerm = ''ISO_IR 13'' \<or> defTerm = ''ISO 2022 IR 13'' then Some ''SHIFT_JIS''
      else if defTerm = ''ISO_IR 166'' \<or> defTerm = ''ISO 2022 IR 166'' then Some ''TIS-620''
      else if defTerm = ''ISO 2022 IR 87'' then Some ''ISO-2022-JP''
      else if defTerm = ''ISO 2022 IR 159'' then Some ''ISO-2022-JP-1''
      else if defTerm = ''ISO 2022 IR 149'' then Some ''EUC-KR''
      else if defTerm = ''ISO 2022 IR 58'' then Some ''EUC-CN''
      else if defTerm = ''ISO_IR 192'' then Some ''UTF-8''
      else if defTerm = ''GB18030'' then Some ''GB18030''
      else if defTerm = ''GBK'' then Some ''GBK''
      else None)"

subsection \<open>Reading the bytes after an escape marker\<close>

text \<open>
  \<^verbatim>\<open>seq\<close> points into a buffer; the model passes the bytes of the buffer from
  that point on. \<^verbatim>\<open>seq[i]\<close> beyond them is a read of memory the input never
  filled. The conditions of the source are chains of \<^verbatim>\<open>&&\<close> and
  \<^verbatim>\<open>||\<close>, which read their right operand only when the left one does not
  decide; \<open>cand\<close> and \<open>cor\<close> keep that order, so a byte is read in the model
  exactly when the source reads it.
\<close>

definition seq_is :: "string \<Rightarrow> nat \<Rightarrow> char \<Rightarrow> bool option" where
  "seq_is seq i c = (if i < length seq then Some (seq ! i = c) else None)"

definition seq_ge :: "string \<Rightarrow> nat \<Rightarrow> char \<Rightarrow> bool option" where
  "seq_ge seq i c =
     (if i < length seq then Some ((of_char c :: nat) \<le> of_char (seq ! i)) else None)"

definition seq_le :: "string \<Rightarrow> nat \<Rightarrow> char \<Rightarrow> bool option" where
  "seq_le seq i c =
     (if i < length seq then Some ((of_char (seq ! i) :: nat) \<le> of_char c) else None)"

definition cand :: "bool option \<Rightarrow> bool option \<Rightarrow> bool option" where
  "cand a b = (case a of None \<Rightarrow> None | Some False \<Rightarrow> Some False | Some True \<Rightarrow> b)"

definition cor :: "bool option \<Rightarrow> bool option \<Rightarrow> bool option" where
  "cor a b = (case a of None \<Rightarrow> None | Some True \<Rightarrow> Some True | Some False \<Rightarrow> b)"

definition cif :: "bool option \<Rightarrow> 'a option \<Rightarrow> 'a option \<Rightarrow> 'a option" where
  "cif c t e = (case c of None \<Rightarrow> None | Some True \<Rightarrow> t | Some False \<Rightarrow> e)"

text \<open>\<^verbatim>\<open>iso2022EscSelectCharset\<close>; the result \<open>Some []\<close> is the empty term.\<close>

definition iso2022EscSelectCharset :: "string \<Rightarrow> string option" where
  "iso2022EscSelectCharset seq =
     cif (cand (seq_is seq 0 CHR ''('') (seq_is seq 1 CHR ''B'')) (Some ''ISO 2022 IR 6'')
    (cif (cand (seq_is seq 0 CHR ''-'') (seq_is seq 1 CHR ''A'')) (Some ''ISO 2022 IR 100'')
    (cif (cand (seq_is seq 0 CHR ''-'') (seq_is seq 1 CHR ''B'')) (Some ''ISO 2022 IR 101'')
    (cif (cand (seq_is seq 0 CHR ''-'') (seq_is seq 1 CHR ''C'')) (Some ''ISO 2022 IR 109'')
    (cif (cand (seq_is seq 0 CHR ''-'') (seq_is seq 1 CHR ''D'')) (Some ''ISO 2022 IR 110'')
    (cif (cand (seq_is seq 0 CHR ''-'') (seq_is seq 1 CHR ''L'')) (Some ''ISO 2022 IR 144'')
    (cif (cand (seq_is seq 0 CHR ''-'') (seq_is seq 1 CHR ''G'')) (Some ''ISO 2022 IR 127'')
    (cif (cand (seq_is seq 0 CHR ''-'') (seq_is seq 1 CHR ''F'')) (Some ''ISO 2022 IR 126'')
    (cif (cand (seq_is seq 0 CHR ''-'') (seq_is seq 1 CHR ''H'')) (Some ''ISO 2022 IR 138'')
    (cif (cand (seq_is seq 0 CHR ''-'') (seq_is seq 1 CHR ''M'')) (Some ''ISO 2022 IR 148'')
    (cif (cand (seq_is seq 0 CHR ''-'')
               (cor (seq_is seq 1 CHR ''I'') (seq_is seq 1 CHR ''J''))) (Some ''ISO 2022 IR 13'')
    (cif (cand (seq_is seq 0 CHR ''-'') (seq_is seq 1 CHR ''T'')) (Some ''ISO 2022 IR 166'')
    (cif (cand (seq_is seq 0 CHR ''$'') (seq_is seq 1 CHR ''B'')) (Some ''ISO 2022 IR 87'')
    (cif (cand (cand (seq_is seq 0 CHR ''$'') (seq_is seq 1 CHR ''(''))
               (seq_is seq 2 CHR ''D'')) (Some ''ISO 2022 IR 159'')
    (cif (cand (cand (seq_is seq 0 CHR ''$'') (seq_is seq 1 CHR '')''))
               (seq_is seq 2 CHR ''C'')) (Some ''ISO 2022 IR 149'')
    (cif (cand (cand (seq_is seq 0 CHR ''$'') (seq_is seq 1 CHR '')''))
               (seq_is seq 2 CHR ''A'')) (Some ''ISO 2022 IR 58'')
    (cif (cor (cand (seq_is seq 0 CHR '')'') (seq_is seq 1 CHR ''I''))
              (cand (seq_is seq 0 CHR ''('') (seq_is seq 1 CHR ''J''))) (Some ''ISO 2022 IR 13'')
    (Some [])))))))))))))))))"

text \<open>
  \<^verbatim>\<open>iso2022EscSeqLength\<close>:
  \<^verbatim>\<open>if (seq[0] == '$' && seq[1] >= '(' && seq[1] <= '/') return 3; return 2;\<close>
  The two comparisons are on the byte's code. Where \<^verbatim>\<open>char\<close> is signed a
  byte from 0x80 on fails the first comparison, and here it fails the second: the
  conjunction is the same, and both read the same byte.
\<close>

definition iso2022EscSeqLength :: "string \<Rightarrow> nat option" where
  "iso2022EscSeqLength seq =
     cif (cand (cand (seq_is seq 0 CHR ''$'') (seq_ge seq 1 CHR ''(''))
               (seq_le seq 1 CHR ''/''))
       (Some 3) (Some 2)"


subsection \<open>setSpecificCharacterSet: parsing the declaration\<close>

text \<open>
  \<^verbatim>\<open>std::getline(tokStream, token, '\\')\<close> on what is left of the stream. It
  fails (the loop ends) when nothing is left; otherwise the token is the text before the
  next delimiter, and the delimiter, if there is one, is consumed.
\<close>

definition getline :: "string \<Rightarrow> char \<Rightarrow> (string \<times> string) option" where
  "getline tokStream delim =
     (if tokStream = [] then None
      else (let token = takeWhile (\<lambda>c. c \<noteq> delim) tokStream
            in Some (token, drop (length token + 1) tokStream)))"

text \<open>
  The loop \<^verbatim>\<open>while (std::getline(tokStream, token, '\\')) { ... ++count; }\<close>
  with its state \<^verbatim>\<open>m_charsets\<close> and \<^verbatim>\<open>count\<close>. An exception of
  \<^verbatim>\<open>normalizeTerm\<close> leaves the loop and the function; the loop goes on after a
  trim that read the byte before the token. The warning written to
  \<^verbatim>\<open>std::cerr\<close> for a duplicate is not part of the state.
\<close>

function tokenLoop :: "string \<Rightarrow> string list \<Rightarrow> nat \<Rightarrow> fault + (string list \<times> nat)" where
  "tokenLoop tokStream m_charsets count =
     (case getline tokStream (CHR 0x5C) of
        None \<Rightarrow> Inr (m_charsets, count)
      | Some (raw, rest) \<Rightarrow>
          (case trimmed (normalizeTerm raw) of
             Inl thrown \<Rightarrow> Inl thrown
           | Inr token \<Rightarrow>
               (let m_charsets' =
                  (if length token = 0 \<and> count = 0 then
                     m_charsets @ [DEFAULT_ENCODING] @ [DEFAULT_ISO_2022_ENCODING]
                   else if token \<notin> set m_charsets then
                     (let chname = definedTermToIconvCharset token
                      in if chname \<noteq> None \<and> chname \<noteq> Some ASCII then m_charsets @ [token]
                         else m_charsets)
                   else m_charsets)
                in tokenLoop rest m_charsets' (count + 1))))"
  by pat_completeness auto
termination
  by (relation "measure (\<lambda>(tokStream, m_charsets, count). length tokStream)")
     (auto simp: getline_def Let_def split: if_splits)

declare tokenLoop.simps [simp del]

text \<open>
  \<^verbatim>\<open>setSpecificCharacterSet(const char *spcharsets)\<close>: the argument is read as a
  C string. The result is \<^verbatim>\<open>m_charsets\<close>; the last test of the source only
  writes a warning when it is empty.
\<close>

definition setSpecificCharacterSet :: "string \<Rightarrow> fault + string list" where
  "setSpecificCharacterSet spcharsets =
     (let specificCharacterSet = c_str spcharsets in
      case tokenLoop specificCharacterSet [] 0 of
        Inl thrown \<Rightarrow> Inl thrown
      | Inr (m_charsets, count) \<Rightarrow>
          Inr (if count = 0 then m_charsets @ [DEFAULT_ENCODING] else m_charsets))"

subsection \<open>The converter library\<close>

text \<open>
  The decoder calls the system's iconv, which is not part of this program: it is a
  parameter of the model.
  \<^item> \<open>iconv_open api cs\<close> is \<^verbatim>\<open>iconv_open("UTF-8", cs)\<close>; \<open>None\<close> is
    the failure \<^verbatim>\<open>(iconv_t)-1\<close>.
  \<^item> \<open>iconv api cd bytes room\<close> is the output one call of \<^verbatim>\<open>iconv\<close> writes
    for the input range \<open>bytes\<close> when \<open>room\<close> bytes of the output buffer are left
    (\<^verbatim>\<open>outbytesleft\<close>). The call may stop early, on malformed input or when the
    room is used up; what it wrote is kept. It never writes more than \<open>room\<close> bytes:
    the decoder below cuts the output of the parameter at \<open>room\<close>, whatever function
    is given. The decoder gives every handle it opens to at most one call, so a
    function of the handle, the input range and the room describes it.
  \<^item> \<open>iconv_close api cd\<close> holds when \<^verbatim>\<open>iconv_close(cd)\<close> returns 0.
\<close>

record 'cd iconv_api =
  iconv_open :: "string \<Rightarrow> 'cd option"
  iconv :: "'cd \<Rightarrow> string \<Rightarrow> nat \<Rightarrow> string"
  iconv_close :: "'cd \<Rightarrow> bool"

subsection \<open>convertCharStringToUTF8\<close>

text \<open>
  \<^verbatim>\<open>int utf8len = len * 4;\<close> The product is a \<^verbatim>\<open>size_t\<close>; the
  \<^verbatim>\<open>int\<close> keeps its low 32 bits, read as a signed number.
\<close>

definition int_of_size_t :: "nat \<Rightarrow> int" where
  "int_of_size_t n = (let m = int n mod 2 ^ 32 in if m < 2 ^ 31 then m else m - 2 ^ 32)"

text \<open>
  \<^verbatim>\<open>strncpy(copiedStr, str, len)\<close>: the bytes of \<^verbatim>\<open>str\<close> up to its
  first NUL, then NULs up to \<^verbatim>\<open>len\<close> bytes. \<^verbatim>\<open>copiedStr[len]\<close> is
  allocated and never written.
\<close>

definition strncpy :: "string \<Rightarrow> nat \<Rightarrow> string" where
  "strncpy src n =
     (let copied = takeWhile (\<lambda>c. c \<noteq> NUL) (take n src)
      in copied @ replicate (n - length copied) NUL)"

text \<open>
  The block under \<^verbatim>\<open>// case: ISO 2022 escape encountered\<close>, entered with
  \<^verbatim>\<open>fragmentStart\<close> at the marker. It ends in a \<^verbatim>\<open>break\<close>
  (\<open>Bail\<close>) or with a new handle and a new \<^verbatim>\<open>fragmentStart\<close>
  (\<open>Switch\<close>). \<^verbatim>\<open>escSeq = copiedStr + fragmentStart + 1\<close> is the copy from
  the byte after the marker on.
\<close>

datatype 'cd esc_outcome = Bail | Switch 'cd nat

definition escapeEncountered ::
  "'cd iconv_api \<Rightarrow> string list \<Rightarrow> string \<Rightarrow> 'cd \<Rightarrow> nat \<Rightarrow> 'cd esc_outcome option" where
  "escapeEncountered api m_charsets copiedStr cd fragmentStart =
     (let escSeq = drop (fragmentStart + 1) copiedStr in
      case iso2022EscSelectCharset escSeq of
        None \<Rightarrow> None
      | Some nextTerm \<Rightarrow>
          (case definedTermToIconvCharset nextTerm of
             None \<Rightarrow> Some Bail
           | Some nextCharset \<Rightarrow>
               if nextTerm \<notin> set m_charsets then Some Bail
               else if \<not> iconv_close api cd then Some Bail
               else
                 (case iconv_open api nextCharset of
                    None \<Rightarrow> Some Bail
                  | Some cd' \<Rightarrow>
                      if nextCharset \<noteq> ''ISO-2022-JP'' \<and> nextCharset \<noteq> ''ISO-2022-JP-1'' then
                        (case iso2022EscSeqLength escSeq of
                           None \<Rightarrow> None
                         | Some n \<Rightarrow> Some (Switch cd' (fragmentStart + (n + 1))))
                      else Some (Switch cd' fragmentStart))))"

lemma escapeEncountered_advances:
  "escapeEncountered api m_charsets copiedStr cd fragmentEnd = Some (Switch cd' fragmentStart')
   \<Longrightarrow> fragmentEnd \<le> fragmentStart'"
  by (auto simp: escapeEncountered_def Let_def split: option.splits if_splits)

lemma findEsc_ge: "pos \<le> findEsc str len pos"
proof (induction str len pos rule: findEsc.induct)
  case (1 str len pos)
  show ?case
  proof (cases "pos < len \<and> str ! pos \<noteq> ESC")
    case True
    with "1" have "pos + 1 \<le> findEsc str len (pos + 1)" by simp
    with True show ?thesis by (subst findEsc.simps) simp
  next
    case False
    then show ?thesis by (subst findEsc.simps) auto
  qed
qed

text \<open>
  The loop \<^verbatim>\<open>while (fragmentStart < len) { ... }\<close> of the multi-charset path,
  with its state: the open handle, \<^verbatim>\<open>fragmentStart\<close>, the output written so
  far and \<^verbatim>\<open>outbytesleft\<close>. \<^verbatim>\<open>findEsc\<close> scans \<^verbatim>\<open>str\<close>; the
  converter and the escape sequence read \<^verbatim>\<open>copiedStr\<close>. \<open>None\<close> is a read
  of the escape block past the copied input.
\<close>

function scan ::
  "'cd iconv_api \<Rightarrow> string list \<Rightarrow> string \<Rightarrow> string \<Rightarrow> 'cd \<Rightarrow> nat \<Rightarrow> string \<Rightarrow> nat
   \<Rightarrow> string option" where
  "scan api m_charsets str copiedStr cd fragmentStart out outbytesleft =
     (let len = length str in
      if fragmentStart < len then
        (let fragmentEnd = findEsc str len (fragmentStart + 1);
             written = take outbytesleft
                         (iconv api cd
                            (take (fragmentEnd - fragmentStart) (drop fragmentStart copiedStr))
                            outbytesleft);
             out' = out @ written;
             outbytesleft' = outbytesleft - length written
         in if fragmentEnd < len then
              (case escapeEncountered api m_charsets copiedStr cd fragmentEnd of
                 None \<Rightarrow> None
               | Some Bail \<Rightarrow> Some out'
               | Some (Switch cd' fragmentStart') \<Rightarrow>
                   scan api m_charsets str copiedStr cd' fragmentStart' out' outbytesleft')
            else Some out')
      else Some out)"
  by pat_completeness auto
termination
proof (relation "measure (\<lambda>(api, m_charsets, str, copiedStr, cd, fragmentStart, out, room).
                            length str - fragmentStart)", goal_cases)
  case 1
  show ?case by simp
next
  case (2 api m_charsets str copiedStr cd fragmentStart out room len fragmentEnd written
          out' room' e cd' fs')
  have "fragmentStart + 1 \<le> fragmentEnd"
    using 2 findEsc_ge [of "fragmentStart + 1" str len] by simp
  moreover have "fragmentEnd \<le> fs'"
    using 2 escapeEncountered_advances by metis
  ultimately show ?case using 2 by simp
qed

declare scan.simps [simp del]

text \<open>
  \<^verbatim>\<open>convertCharStringToUTF8(const std::string &str)\<close>, which calls the overload
  on \<^verbatim>\<open>str.c_str()\<close> and \<^verbatim>\<open>str.size()\<close>.
  \<^item> \<^verbatim>\<open>m_charsets[0]\<close> on an empty vector is a read outside it.
  \<^item> \<^verbatim>\<open>new char[utf8len + 1]()\<close> throws when \<^verbatim>\<open>utf8len + 1\<close> is
    negative; otherwise the buffer is zero-filled, and
    \<^verbatim>\<open>outbytesleft = utf8len\<close>. (\<^verbatim>\<open>utf8len\<close> is a multiple of 4, so
    \<^verbatim>\<open>utf8len + 1\<close> stays within \<^verbatim>\<open>int\<close>.)
  \<^item> The array \<^verbatim>\<open>char test[len]\<close> is never used and is left out.
  \<^item> The result is \<^verbatim>\<open>std::string(result.get())\<close>: the output up to its first
    NUL.
\<close>

definition convertCharStringToUTF8 ::
  "'cd iconv_api \<Rightarrow> string list \<Rightarrow> string \<Rightarrow> fault + string" where
  "convertCharStringToUTF8 api m_charsets str =
     (let len = length str in
      if m_charsets = [] then Inl OutOfBounds
      else
        (case definedTermToIconvCharset (m_charsets ! 0) of
           None \<Rightarrow> Inr []
         | Some initialCharset \<Rightarrow>
             (case iconv_open api initialCharset of
                None \<Rightarrow> Inr []
              | Some cd \<Rightarrow>
                  (let utf8len = int_of_size_t (len * 4) in
                   if utf8len + 1 < 0 then Inl BadAlloc
                   else
                     (let copiedStr = strncpy str len;
                          outbytesleft = nat utf8len
                      in case (if length m_charsets = 1
                               then Some (take outbytesleft
                                            (iconv api cd copiedStr outbytesleft))
                               else scan api m_charsets str copiedStr cd 0 []
                                      outbytesleft) of
                           None \<Rightarrow> Inl OutOfBounds
                         | Some result \<Rightarrow> Inr (c_str result))))))"

text \<open>
  What is left of an iteration of the loop once its fragment is converted: the test
  \<^verbatim>\<open>if (fragmentStart < len)\<close> at the marker, the escape block, and the loop
  again. \<open>scan_unfold\<close> below states that an iteration is the conversion of its
  fragment followed by this.
\<close>

definition afterFragment ::
  "'cd iconv_api \<Rightarrow> string list \<Rightarrow> string \<Rightarrow> string \<Rightarrow> 'cd \<Rightarrow> nat \<Rightarrow> string \<Rightarrow> nat
   \<Rightarrow> string option" where
  "afterFragment api m_charsets str copiedStr cd fragmentEnd out' outbytesleft' =
     (if fragmentEnd < length str then
        (case escapeEncountered api m_charsets copiedStr cd fragmentEnd of
           None \<Rightarrow> None
         | Some Bail \<Rightarrow> Some out'
         | Some (Switch cd' fragmentStart') \<Rightarrow>
             scan api m_charsets str copiedStr cd' fragmentStart' out' outbytesleft')
      else Some out')"

subsection \<open>Notions used to state the properties\<close>

text \<open>The raw tokens the loop of \<open>setSpecificCharacterSet\<close> reads, in order.\<close>

function tokens :: "string \<Rightarrow> string list" where
  "tokens tokStream =
     (case getline tokStream (CHR 0x5C) of
        None \<Rightarrow> []
      | Some (raw, rest) \<Rightarrow> raw # tokens rest)"
  by pat_completeness auto
termination
  by (relation "measure length") (auto simp: getline_def Let_def split: if_splits)

declare tokens.simps [simp del]

text \<open>
  A raw token that the loop can append: trimmed, it is a defined term of the catalogue
  whose converter is not ASCII.
\<close>

definition declares :: "string \<Rightarrow> bool" where
  "declares raw =
     (case trimmed (normalizeTerm raw) of
        Inl thrown \<Rightarrow> False
      | Inr token \<Rightarrow>
          (case definedTermToIconvCharset token of
             None \<Rightarrow> False
           | Some chname \<Rightarrow> chname \<noteq> ASCII))"

text \<open>A raw token that has characters, all of them spaces.\<close>

definition blank :: "string \<Rightarrow> bool" where
  "blank raw = (raw \<noteq> [] \<and> list_all isspace raw)"

text \<open>
  A small converter library on which the decoder can be run. A handle is the
  charset's name, every charset opens, and closing succeeds. ASCII copies bytes below
  0x80 and stops at the first other byte; every other charset is converted as
  ISO-8859-1, where a byte from 0x80 on becomes the two bytes of its UTF-8 encoding.
  A character is written only if the room left holds all of it.
\<close>

definition latin1_to_utf8 :: "char \<Rightarrow> string" where
  "latin1_to_utf8 c =
     (let n = (of_char c :: nat)
      in if n < 128 then [c] else [char_of (192 + n div 64), char_of (128 + n mod 64)])"

fun ascii_conv :: "string \<Rightarrow> nat \<Rightarrow> string" where
  "ascii_conv [] room = []"
| "ascii_conv (c # cs) room =
     (if (of_char c :: nat) < 128 \<and> 1 \<le> room then c # ascii_conv cs (room - 1) else [])"

fun latin1_conv :: "string \<Rightarrow> nat \<Rightarrow> string" where
  "latin1_conv [] room = []"
| "latin1_conv (c # cs) room =
     (let u = latin1_to_utf8 c
      in if length u \<le> room then u @ latin1_conv cs (room - length u) else [])"

definition sample_iconv :: "string iconv_api" where
  "sample_iconv =
     \<lparr> iconv_open = Some,
       iconv = (\<lambda>cd bytes room. if cd = ''ASCII'' then ascii_conv bytes room
                                 else latin1_conv bytes room),
       iconv_close = (\<lambda>cd. True) \<rparr>"

section \<open>Trimming\<close>

lemma trim_start_eq:
  "start \<le> length term \<Longrightarrow>
   trim_start term start = start + length (takeWhile isspace (drop start term))"
proof (induction "term" start rule: trim_start.induct)
  case (1 t start)
  show ?case
  proof (cases "start < length t \<and> isspace (t ! start)")
    case True
    then have d: "drop start t = t ! start # drop (Suc start) t"
      by (simp add: Cons_nth_drop_Suc)
    from True "1" have "trim_start t (start + 1) =
        start + 1 + length (takeWhile isspace (drop (start + 1) t))" by simp
    with True d show ?thesis by (subst trim_start.simps) simp
  next
    case False
    show ?thesis
    proof (cases "start < length t")
      case True
      with False have ns: "\<not> isspace (t ! start)" by simp
      from True have d: "drop start t = t ! start # drop (Suc start) t"
        by (simp add: Cons_nth_drop_Suc)
      from ns d show ?thesis by (subst trim_start.simps) simp
    next
      case False
      then show ?thesis by (subst trim_start.simps) simp
    qed
  qed
qed

lemma trim_end_blank:
  "0 \<le> e \<Longrightarrow> e \<le> int start \<Longrightarrow> e \<le> int (length term) \<Longrightarrow>
   (\<forall>j < nat e. isspace (term ! j)) \<Longrightarrow> trim_end term start e = (- 1, True)"
proof (induction "term" start e rule: trim_end.induct)
  case (1 t start e)
  show ?case
  proof (cases "e = 0")
    case True
    then show ?thesis by (subst trim_end.simps) simp
  next
    case False
    with "1.prems" have pos: "0 \<le> e - 1" "e - 1 \<noteq> int start" "e - 1 < int (length t)" by auto
    from "1.prems" False have sp: "isspace (t ! nat (e - 1))" by auto
    have "trim_end t start (e - 1) = (- 1, True)"
      using "1.IH" [of "e - 1"] pos sp "1.prems" by auto
    with pos sp show ?thesis by (subst trim_end.simps) (simp add: Let_def)
  qed
qed

lemma trim_end_found:
  "int start < e \<Longrightarrow> e \<le> int (length term) \<Longrightarrow> \<not> isspace (term ! start) \<Longrightarrow>
   \<exists>r. trim_end term start e = (int r, False) \<and> start \<le> r \<and> int r < e \<and>
       \<not> isspace (term ! r) \<and> (\<forall>j. r < j \<and> int j < e \<longrightarrow> isspace (term ! j))"
proof (induction "term" start e rule: trim_end.induct)
  case (1 t start e)
  show ?case
  proof (cases "e - 1 = int start")
    case True
    then have "trim_end t start e = (int start, False)"
      by (subst trim_end.simps) (simp add: Let_def)
    with True "1.prems" show ?thesis by (intro exI [of _ start]) auto
  next
    case ne: False
    with "1.prems" have rng: "\<not> (e - 1 < 0 \<or> int (length t) \<le> e - 1)" by auto
    show ?thesis
    proof (cases "isspace (t ! nat (e - 1))")
      case True
      from ne "1.prems" have "int start < e - 1" by auto
      with "1.IH" [of "e - 1"] ne rng True "1.prems"
      obtain r where r: "trim_end t start (e - 1) = (int r, False)" "start \<le> r"
          "int r < e - 1" "\<not> isspace (t ! r)"
          "\<forall>j. r < j \<and> int j < e - 1 \<longrightarrow> isspace (t ! j)"
        by auto
      have "trim_end t start e = (int r, False)"
        using ne rng True r(1) by (subst trim_end.simps) (simp add: Let_def)
      moreover have "\<forall>j. r < j \<and> int j < e \<longrightarrow> isspace (t ! j)"
      proof (intro allI impI)
        fix j assume j: "r < j \<and> int j < e"
        show "isspace (t ! j)"
        proof (cases "int j < e - 1")
          case True
          with j r(5) show ?thesis by blast
        next
          case False
          with j have "j = nat (e - 1)" by auto
          with True show ?thesis by simp
        qed
      qed
      ultimately show ?thesis using r by (intro exI [of _ r]) auto
    next
      case False
      have "trim_end t start e = (e - 1, False)"
        using ne rng False by (subst trim_end.simps) (simp add: Let_def)
      moreover from rng have "int (nat (e - 1)) = e - 1" by auto
      ultimately show ?thesis using False ne rng "1.prems"
        by (intro exI [of _ "nat (e - 1)"]) auto
    qed
  qed
qed

lemma takeWhile_all_length:
  "length (takeWhile P xs) = length xs \<longleftrightarrow> (\<forall>x\<in>set xs. P x)"
  by (induction xs) auto

lemma trimWhitespace_all_spaces:
  assumes "list_all isspace term"
  shows "trimWhitespace term =
           \<lparr> trimmed = (if term = [] then Inr [] else Inl LengthError),
             read_before_begin = True \<rparr>"
proof -
  from assms have all: "\<forall>c\<in>set term. isspace c" by (simp add: list_all_iff)
  then have "length (takeWhile isspace term) = length term"
    by (simp add: takeWhile_all_length)
  then have st: "trim_start term 0 = length term"
    using trim_start_eq [of 0 "term"] by simp
  have "trim_end term (length term) (int (length term)) = (- 1, True)"
    using all by (intro trim_end_blank) auto
  with st show ?thesis by (simp add: trimWhitespace_def)
qed

lemma trimWhitespace_nonblank:
  assumes "\<not> list_all isspace term"
  shows "trimWhitespace term =
           \<lparr> trimmed = Inr (rev (dropWhile isspace (rev (dropWhile isspace term)))),
             read_before_begin = False \<rparr>"
proof -
  from assms have nall: "\<not> (\<forall>c\<in>set term. isspace c)" by (simp add: list_all_iff)
  define start where "start = length (takeWhile isspace term)"
  have st: "trim_start term 0 = start"
    using trim_start_eq [of 0 "term"] by (simp add: start_def)
  have lt: "start < length term"
    using nall takeWhile_all_length [of isspace "term"] length_takeWhile_le [of isspace "term"]
    unfolding start_def by (metis le_neq_implies_less)
  have ns: "\<not> isspace (term ! start)"
    unfolding start_def using lt nth_length_takeWhile start_def by blast
  have dw: "dropWhile isspace term = drop start term"
    unfolding start_def by (rule dropWhile_eq_drop)
  from trim_end_found [of start "int (length term)" "term"] lt ns
  obtain r where r: "trim_end term start (int (length term)) = (int r, False)" "start \<le> r"
      "r < length term" "\<not> isspace (term ! r)"
      "\<forall>j. r < j \<and> j < length term \<longrightarrow> isspace (term ! j)"
    by auto
  define u where "u = drop start term"
  define m where "m = Suc r - start"
  have tw: "trimWhitespace term = \<lparr> trimmed = Inr (take m u), read_before_begin = False \<rparr>"
    using st r(1,2) by (simp add: trimWhitespace_def u_def m_def nat_add_distrib)
  have m_le: "m \<le> length u" "0 < m" using r(2,3) by (auto simp: m_def u_def)
  have tail: "\<forall>x\<in>set (drop m u). isspace x"
  proof
    fix x assume "x \<in> set (drop m u)"
    then obtain i where i: "i < length (drop m u)" "x = drop m u ! i"
      by (auto simp: in_set_conv_nth)
    then have "x = term ! (start + (m + i))"
      using m_le by (simp add: u_def add.commute add.left_commute)
    moreover have "r < start + (m + i)" "start + (m + i) < length term"
      using i(1) r(2) by (auto simp: m_def u_def)
    ultimately show "isspace x" using r(5) by blast
  qed
  have lastns: "\<not> isspace (last (take m u))"
  proof -
    have "take m u \<noteq> []" "length (take m u) = m" using m_le by auto
    then have "last (take m u) = take m u ! (m - 1)"
      by (simp add: last_conv_nth)
    also have "\<dots> = u ! (m - 1)" using m_le by simp
    finally have "last (take m u) = u ! (m - 1)" .
    also have "\<dots> = term ! r" using r(2,3) by (simp add: u_def m_def)
    finally show ?thesis using r(4) by simp
  qed
  have ne: "take m u \<noteq> []" using m_le by auto
  have "rev u = rev (drop m u) @ rev (take m u)"
    by (metis append_take_drop_id rev_append)
  moreover have "dropWhile isspace (rev (drop m u) @ rev (take m u)) =
      dropWhile isspace (rev (take m u))"
    by (rule dropWhile_append2) (use tail in auto)
  ultimately have "dropWhile isspace (rev u) = dropWhile isspace (rev (take m u))"
    by simp
  also have "\<dots> = rev (take m u)"
    using lastns ne by (cases "rev (take m u)") (auto simp: hd_rev [symmetric])
  finally have "rev (dropWhile isspace (rev u)) = take m u" by simp
  with tw dw show ?thesis by (simp add: u_def)
qed

lemma trimmed_nonblank_nonempty:
  assumes "\<not> list_all isspace raw"
  shows "rev (dropWhile isspace (rev (dropWhile isspace raw))) \<noteq> []"
proof -
  let ?u = "dropWhile isspace raw"
  from assms have "?u \<noteq> []" by (simp add: list_all_iff)
  then have "\<not> isspace (hd ?u)" by (rule hd_dropWhile)
  moreover from \<open>?u \<noteq> []\<close> have "hd ?u \<in> set (rev ?u)" by simp
  ultimately have "dropWhile isspace (rev ?u) \<noteq> []"
    by (metis dropWhile_eq_Nil_conv)
  then show ?thesis by simp
qed

lemma normalizeTerm_cases:
  "\<not> blank raw \<Longrightarrow>
   \<exists>token. trimmed (normalizeTerm raw) = Inr token \<and> (token = [] \<longleftrightarrow> raw = [])"
proof (cases "list_all isspace raw")
  case True
  assume "\<not> blank raw"
  with True have "raw = []" by (simp add: blank_def)
  then show ?thesis
    using trimWhitespace_all_spaces [of raw] by (simp add: normalizeTerm_def)
next
  case False
  then have "raw \<noteq> []" by auto
  with False show ?thesis
    using trimWhitespace_nonblank [of raw] trimmed_nonblank_nonempty [of raw]
    by (simp add: normalizeTerm_def)
qed

lemma normalizeTerm_Inr_empty:
  "trimmed (normalizeTerm raw) = Inr token \<Longrightarrow> token = [] \<longleftrightarrow> raw = []"
proof (cases "list_all isspace raw")
  case True
  assume "trimmed (normalizeTerm raw) = Inr token"
  with True show ?thesis
    using trimWhitespace_all_spaces [of raw] by (auto simp: normalizeTerm_def split: if_splits)
next
  case False
  assume "trimmed (normalizeTerm raw) = Inr token"
  with False have "token \<noteq> []"
    using trimWhitespace_nonblank [of raw] trimmed_nonblank_nonempty [of raw]
    by (auto simp: normalizeTerm_def)
  moreover from False have "raw \<noteq> []" by auto
  ultimately show ?thesis by simp
qed

section \<open>The parser's loop\<close>

lemma tokens_Nil: "tokens [] = []"
  by (simp add: tokens.simps getline_def)

lemma tokens_eq_Nil: "tokens s = [] \<longleftrightarrow> s = []"
  by (subst tokens.simps) (auto simp: getline_def Let_def)

lemma tokenLoop_result:
  "tokenLoop tokStream m_charsets count = Inr (m_charsets', count') \<Longrightarrow>
   (m_charsets' \<noteq> [] \<longleftrightarrow>
      m_charsets \<noteq> [] \<or> (count = 0 \<and> (\<exists>rest. tokens tokStream = [] # rest)) \<or>
      (\<exists>raw\<in>set (tokens tokStream). declares raw)) \<and>
   (count' = 0 \<longleftrightarrow> count = 0 \<and> tokStream = [])"
proof (induction tokStream m_charsets count rule: tokenLoop.induct)
  case (1 tokStream m_charsets count)
  show ?case
  proof (cases "getline tokStream (CHR 0x5C)")
    case None
    then have e: "tokStream = []" by (simp add: getline_def Let_def split: if_splits)
    from None "1.prems" have "m_charsets' = m_charsets" "count' = count"
      by (simp_all add: tokenLoop.simps)
    with e show ?thesis by (simp add: tokens_Nil)
  next
    case (Some p)
    obtain raw rest where p: "p = (raw, rest)" by (cases p)
    from Some have ne: "tokStream \<noteq> []" by (auto simp: getline_def split: if_splits)
    from Some p have tk: "tokens tokStream = raw # tokens rest"
      by (subst tokens.simps) simp
    show ?thesis
    proof (cases "trimmed (normalizeTerm raw)")
      case (Inl thrown)
      with Some p "1.prems" show ?thesis by (simp add: tokenLoop.simps)
    next
      case (Inr token)
      then have tne: "token = [] \<longleftrightarrow> raw = []" by (rule normalizeTerm_Inr_empty)
      define m where "m =
        (if length token = 0 \<and> count = 0 then
           m_charsets @ [DEFAULT_ENCODING] @ [DEFAULT_ISO_2022_ENCODING]
         else if token \<notin> set m_charsets then
           (let chname = definedTermToIconvCharset token
            in if chname \<noteq> None \<and> chname \<noteq> Some ASCII then m_charsets @ [token]
               else m_charsets)
         else m_charsets)"
      from \<open>getline tokStream (CHR 0x5C) = Some p\<close> p Inr "1.prems"
      have run: "tokenLoop rest m (count + 1) = Inr (m_charsets', count')"
        by (subst (asm) tokenLoop.simps) (simp add: m_def Let_def)
      from "1.IH" [OF \<open>getline tokStream (CHR 0x5C) = Some p\<close> p [symmetric] Inr m_def run]
      have ih: "(m_charsets' \<noteq> [] \<longleftrightarrow> m \<noteq> [] \<or> (\<exists>raw\<in>set (tokens rest). declares raw))"
        and c: "count' \<noteq> 0" by auto
      have dec: "declares raw \<longleftrightarrow>
          (\<exists>chname. definedTermToIconvCharset token = Some chname \<and> chname \<noteq> ASCII)"
        using Inr by (simp add: declares_def split: option.splits)
      have "m \<noteq> [] \<longleftrightarrow> m_charsets \<noteq> [] \<or> (count = 0 \<and> token = []) \<or> declares raw"
        using dec by (auto simp: m_def Let_def)
      with ih c ne tk tne show ?thesis by auto
    qed
  qed
qed

lemma tokenLoop_completes:
  "\<forall>raw\<in>set (tokens tokStream). \<not> blank raw \<Longrightarrow>
   \<exists>r. tokenLoop tokStream m_charsets count = Inr r"
proof (induction tokStream m_charsets count rule: tokenLoop.induct)
  case (1 tokStream m_charsets count)
  show ?case
  proof (cases "getline tokStream (CHR 0x5C)")
    case None
    then show ?thesis by (simp add: tokenLoop.simps)
  next
    case (Some p)
    obtain raw rest where p: "p = (raw, rest)" by (cases p)
    from Some p have tk: "tokens tokStream = raw # tokens rest"
      by (subst tokens.simps) simp
    with "1.prems" have nb: "\<not> blank raw" and rest: "\<forall>raw\<in>set (tokens rest). \<not> blank raw"
      by auto
    from normalizeTerm_cases [OF nb] obtain token where
      tok: "trimmed (normalizeTerm raw) = Inr token" by blast
    define m where "m =
      (if length token = 0 \<and> count = 0 then
         m_charsets @ [DEFAULT_ENCODING] @ [DEFAULT_ISO_2022_ENCODING]
       else if token \<notin> set m_charsets then
         (let chname = definedTermToIconvCharset token
          in if chname \<noteq> None \<and> chname \<noteq> Some ASCII then m_charsets @ [token]
             else m_charsets)
       else m_charsets)"
    from "1.IH" [OF Some p [symmetric] tok m_def rest]
    obtain r where "tokenLoop rest m (count + 1) = Inr r" by blast
    with Some p tok show ?thesis
      by (subst tokenLoop.simps) (simp add: m_def Let_def)
  qed
qed

lemma tokenLoop_throws:
  "tokenLoop tokStream m_charsets count = Inl thrown \<Longrightarrow>
   thrown = LengthError \<and> (\<exists>raw\<in>set (tokens tokStream). blank raw)"
proof (induction tokStream m_charsets count rule: tokenLoop.induct)
  case (1 tokStream m_charsets count)
  show ?case
  proof (cases "getline tokStream (CHR 0x5C)")
    case None
    with "1.prems" show ?thesis by (simp add: tokenLoop.simps)
  next
    case (Some p)
    obtain raw rest where p: "p = (raw, rest)" by (cases p)
    from Some p have tk: "tokens tokStream = raw # tokens rest"
      by (subst tokens.simps) simp
    show ?thesis
    proof (cases "trimmed (normalizeTerm raw)")
      case (Inl t)
      have b: "blank raw"
        using Inl normalizeTerm_cases [of raw] by auto
      then have "list_all isspace raw" "raw \<noteq> []" by (simp_all add: blank_def)
      with Inl have "t = LengthError"
        using trimWhitespace_all_spaces [of raw] by (simp add: normalizeTerm_def)
      moreover from Some p Inl "1.prems" have "thrown = t"
        by (simp add: tokenLoop.simps)
      ultimately show ?thesis using b tk by auto
    next
      case (Inr token)
      define m where "m =
        (if length token = 0 \<and> count = 0 then
           m_charsets @ [DEFAULT_ENCODING] @ [DEFAULT_ISO_2022_ENCODING]
         else if token \<notin> set m_charsets then
           (let chname = definedTermToIconvCharset token
            in if chname \<noteq> None \<and> chname \<noteq> Some ASCII then m_charsets @ [token]
               else m_charsets)
         else m_charsets)"
      from Some p Inr "1.prems"
      have run: "tokenLoop rest m (count + 1) = Inl thrown"
        by (subst (asm) tokenLoop.simps) (simp add: m_def Let_def)
      from "1.IH" [OF Some p [symmetric] Inr m_def run] tk show ?thesis by auto
    qed
  qed
qed

section \<open>The decoder's loop\<close>

lemma scan_unfold:
  "scan api m_charsets str copiedStr cd fragmentStart out outbytesleft =
     (if fragmentStart < length str then
        (let fragmentEnd = findEsc str (length str) (fragmentStart + 1);
             written = take outbytesleft
                         (iconv api cd
                            (take (fragmentEnd - fragmentStart) (drop fragmentStart copiedStr))
                            outbytesleft)
         in afterFragment api m_charsets str copiedStr cd fragmentEnd (out @ written)
              (outbytesleft - length written))
      else Some out)"
  by (subst scan.simps) (simp only: Let_def afterFragment_def)

lemma int_of_size_t_small: "n < 2 ^ 31 \<Longrightarrow> int_of_size_t n = int n"
proof -
  assume a: "n < 2 ^ 31"
  then have "int n < 2 ^ 31" by (metis of_nat_less_iff of_nat_numeral of_nat_power)
  moreover from this have "int n mod 2 ^ 32 = int n" by simp
  ultimately show ?thesis by (simp add: int_of_size_t_def)
qed

lemma convert_room:
  assumes "m_charsets \<noteq> []"
    and "definedTermToIconvCharset (m_charsets ! 0) = Some initialCharset"
    and "iconv_open api initialCharset = Some cd"
    and "4 * length str < 2 ^ 31"
  shows "convertCharStringToUTF8 api m_charsets str =
         (case (if length m_charsets = 1
                then Some (take (4 * length str)
                             (iconv api cd (strncpy str (length str)) (4 * length str)))
                else scan api m_charsets str (strncpy str (length str)) cd 0 []
                       (4 * length str)) of
            None \<Rightarrow> Inl OutOfBounds
          | Some result \<Rightarrow> Inr (c_str result))"
proof -
  from assms(4) have "int_of_size_t (length str * 4) = int (4 * length str)"
    using int_of_size_t_small [of "4 * length str"] by (simp add: mult.commute)
  then have u: "int_of_size_t (length str * 4) + 1 < 0 \<longleftrightarrow> False"
    and n: "nat (int_of_size_t (length str * 4)) = 4 * length str"
    by simp_all
  show ?thesis
    unfolding convertCharStringToUTF8_def Let_def u n using assms(1-3) by simp
qed

lemma afterFragment_bail:
  assumes "fragmentEnd < length str"
    and "iso2022EscSelectCharset (drop (fragmentEnd + 1) copiedStr) = Some nextTerm"
    and "definedTermToIconvCharset nextTerm = None \<or> nextTerm \<notin> set m_charsets"
  shows "afterFragment api m_charsets str copiedStr cd fragmentEnd out' room' = Some out'"
  using assms
  by (auto simp: afterFragment_def escapeEncountered_def Let_def split: option.splits)

lemma findEsc_eq:
  "pos \<le> length str \<Longrightarrow>
   findEsc str (length str) pos = pos + length (takeWhile (\<lambda>c. c \<noteq> ESC) (drop pos str))"
proof (induction str "length str" pos rule: findEsc.induct)
  case (1 str pos)
  show ?case
  proof (cases "pos < length str")
    case True
    then have d: "drop pos str = str ! pos # drop (Suc pos) str"
      by (simp add: Cons_nth_drop_Suc)
    show ?thesis
    proof (cases "str ! pos = ESC")
      case True
      with d show ?thesis by (subst findEsc.simps) simp
    next
      case False
      with \<open>pos < length str\<close> "1.hyps" have
        "findEsc str (length str) (pos + 1) =
           pos + 1 + length (takeWhile (\<lambda>c. c \<noteq> ESC) (drop (pos + 1) str))"
        by simp
      with False \<open>pos < length str\<close> d show ?thesis by (subst findEsc.simps) simp
    qed
  next
    case False
    with "1.prems" show ?thesis by (subst findEsc.simps) simp
  qed
qed

lemma findEsc_le: "pos \<le> length str \<Longrightarrow> findEsc str (length str) pos \<le> length str"
proof -
  assume a: "pos \<le> length str"
  have "length (takeWhile (\<lambda>c. c \<noteq> ESC) (drop pos str)) \<le> length (drop pos str)"
    by (rule length_takeWhile_le)
  with a show ?thesis by (simp add: findEsc_eq)
qed

lemma findEsc_at_marker:
  assumes "pos \<le> length str" and "findEsc str (length str) pos < length str"
  shows "str ! findEsc str (length str) pos = ESC"
proof -
  let ?d = "drop pos str"
  let ?k = "length (takeWhile (\<lambda>c. c \<noteq> ESC) ?d)"
  from assms have k: "?k < length ?d" by (simp add: findEsc_eq)
  then have "\<not> (?d ! ?k \<noteq> ESC)" by (rule nth_length_takeWhile)
  moreover have "?d ! ?k = str ! (pos + ?k)" using assms(1) by simp
  ultimately show ?thesis using assms(1) by (simp add: findEsc_eq)
qed


lemma strncpy_no_NUL: "NUL \<notin> set str \<Longrightarrow> strncpy str (length str) = str"
proof -
  assume "NUL \<notin> set str"
  then have tw: "takeWhile (\<lambda>c. c \<noteq> NUL) str = str"
    by (induction str) auto
  show ?thesis unfolding strncpy_def Let_def by (simp add: tw)
qed

lemma definedTerm_empty: "definedTermToIconvCharset [] = None"
  by (simp add: definedTermToIconvCharset_def)






section \<open>Evaluation\<close>

lemmas trim_eval = normalizeTerm_def trimWhitespace_def trim_start.simps trim_end.simps
  isspace_def

lemmas parse_eval = setSpecificCharacterSet_def c_str_def NUL_def tokenLoop.simps getline_def
  DEFAULT_ENCODING_def DEFAULT_ISO_2022_ENCODING_def definedTermToIconvCharset_def ASCII_def

lemmas seq_eval = iso2022EscSelectCharset_def iso2022EscSeqLength_def cif_def cand_def cor_def
  seq_is_def seq_ge_def seq_le_def

section \<open>The escape sequences and the terms they select\<close>




section \<open>The switch of the converter\<close>






section \<open>The claims\<close>

text \<open>
  C1, as stated: every attribute value leaves at least one element in the working set,
  in particular a value whose tokens are all spellings of the default table or all
  unrecognised. These three values leave it empty.
\<close>

theorem working_set_can_be_empty:
  "setSpecificCharacterSet ''ISO_IR 6'' = Inr [] \<and>
   setSpecificCharacterSet (''ISO_IR 6'' @ [CHR 0x5C] @ ''ISO 2022 IR 6'') = Inr [] \<and>
   setSpecificCharacterSet ''ISO_IR 999'' = Inr []"
  by (simp add: parse_eval trim_eval)

text \<open>
  C1, amended: for every attribute value that has no token made of whitespace only (on
  such a token the trim throws), parsing returns a working set, and the set has at least one
  element exactly when the value is empty (the set is then the default term alone), or
  its first token is empty (the two default terms are then pushed), or one of its
  tokens, trimmed, is a defined term whose converter is not ASCII. A value whose tokens
  are all unrecognised or spellings of the default table leaves the set empty; the code
  writes a warning and goes on.
\<close>

theorem working_set_nonempty_iff:
  assumes "\<forall>raw\<in>set (tokens (c_str spcharsets)). \<not> blank raw"
  shows "\<exists>m_charsets.
           setSpecificCharacterSet spcharsets = Inr m_charsets \<and>
           (m_charsets \<noteq> [] \<longleftrightarrow>
              c_str spcharsets = [] \<or>
              (\<exists>rest. tokens (c_str spcharsets) = [] # rest) \<or>
              (\<exists>raw\<in>set (tokens (c_str spcharsets)). declares raw))"
proof -
  from tokenLoop_completes [OF assms, of "[]" 0] obtain m count where
    run: "tokenLoop (c_str spcharsets) [] 0 = Inr (m, count)" by (metis surj_pair)
  let ?res = "if count = 0 then m @ [DEFAULT_ENCODING] else m"
  from run have res: "setSpecificCharacterSet spcharsets = Inr ?res"
    by (simp add: setSpecificCharacterSet_def Let_def)
  from tokenLoop_result [OF run]
  have "m \<noteq> [] \<longleftrightarrow> (\<exists>rest. tokens (c_str spcharsets) = [] # rest) \<or>
          (\<exists>raw\<in>set (tokens (c_str spcharsets)). declares raw)"
    and "count = 0 \<longleftrightarrow> c_str spcharsets = []" by auto
  then have "?res \<noteq> [] \<longleftrightarrow>
              c_str spcharsets = [] \<or>
              (\<exists>rest. tokens (c_str spcharsets) = [] # rest) \<or>
              (\<exists>raw\<in>set (tokens (c_str spcharsets)). declares raw)"
    using tokens_Nil by auto
  with res show ?thesis by blast
qed

theorem working_set_nonempty_iff_witness:
  "tokens (c_str ''ISO_IR 100'') = [''ISO_IR 100''] \<and> \<not> blank ''ISO_IR 100'' \<and>
   declares ''ISO_IR 100'' \<and>
   (\<exists>m. setSpecificCharacterSet ''ISO_IR 100'' = Inr m \<and> m \<noteq> []) \<and>
   tokens (c_str (CHR 0x5C # ''ISO_IR 6'')) = [[], ''ISO_IR 6''] \<and> \<not> blank [] \<and>
   \<not> blank ''ISO_IR 6'' \<and> \<not> declares [] \<and> \<not> declares ''ISO_IR 6'' \<and>
   (\<exists>m. setSpecificCharacterSet (CHR 0x5C # ''ISO_IR 6'') = Inr m \<and> m \<noteq> []) \<and>
   tokens (c_str ''ISO_IR 6'') = [''ISO_IR 6''] \<and>
   setSpecificCharacterSet ''ISO_IR 6'' = Inr []"
proof -
  have t1: "tokens (c_str ''ISO_IR 100'') = [''ISO_IR 100'']"
    and t2: "tokens (c_str (CHR 0x5C # ''ISO_IR 6'')) = [[], ''ISO_IR 6'']"
    and t3: "tokens (c_str ''ISO_IR 6'') = [''ISO_IR 6'']"
    by (simp_all add: c_str_def NUL_def tokens.simps getline_def)
  have b: "\<not> blank ''ISO_IR 100''" "\<not> blank []" "\<not> blank ''ISO_IR 6''"
    by (simp_all add: blank_def isspace_def)
  have d: "declares ''ISO_IR 100''" "\<not> declares []" "\<not> declares ''ISO_IR 6''"
    by (simp_all add: declares_def trim_eval definedTermToIconvCharset_def ASCII_def)
  have n: "c_str ''ISO_IR 6'' \<noteq> []" by (simp add: c_str_def NUL_def)
  from working_set_nonempty_iff [of "''ISO_IR 100''"] t1 b d
  have w1: "\<exists>m. setSpecificCharacterSet ''ISO_IR 100'' = Inr m \<and> m \<noteq> []"
    by auto
  from working_set_nonempty_iff [of "CHR 0x5C # ''ISO_IR 6''"] t2 b
  have w2: "\<exists>m. setSpecificCharacterSet (CHR 0x5C # ''ISO_IR 6'') = Inr m \<and> m \<noteq> []"
    by auto
  from working_set_nonempty_iff [of "''ISO_IR 6''"] t3 b d n
  have w3: "setSpecificCharacterSet ''ISO_IR 6'' = Inr []"
    by auto
  from t1 t2 t3 b d w1 w2 w3 show ?thesis by blast
qed

text \<open>
  C2. The claim: on a working set that parsing left empty, decoding any bytes returns
  the empty string with no access outside the set. The value \<^verbatim>\<open>ISO_IR 6\<close>
  leaves the set empty, and the decoder's first statement reads
  \<^verbatim>\<open>m_charsets[0]\<close>: on the empty set that read is outside it, whatever the
  bytes and the converter library.
\<close>

theorem convertCharStringToUTF8_empty_set:
  "setSpecificCharacterSet ''ISO_IR 6'' = Inr [] \<and>
   convertCharStringToUTF8 api [] str = Inl OutOfBounds"
  by (simp add: parse_eval trim_eval convertCharStringToUTF8_def)

text \<open>
  C3. The claim: for every token, the empty one and the all-whitespace ones included, the
  trimming step ends without a read out of bounds and returns the token without its
  leading and trailing whitespace (the empty string for those tokens). The code does
  not: on the empty token it reads the byte before the first character and then
  returns the empty string; on a token of one space it reads that byte too, and the
  range constructor then throws. (\<open>trimWhitespace_all_spaces\<close> above: the same on
  every token that has only whitespace; \<open>trimWhitespace_nonblank\<close>: on every other
  token the result is the trimmed token and no byte outside the token is read.)
\<close>

theorem trimWhitespace_blank_token_out_of_bounds:
  "trimWhitespace [] = \<lparr> trimmed = Inr [], read_before_begin = True \<rparr> \<and>
   trimWhitespace '' '' = \<lparr> trimmed = Inl LengthError, read_before_begin = True \<rparr>"
  by (simp add: trim_eval)

text \<open>
  C4, as stated: wherever a marker in the input is followed by bytes that select an
  unusable term, the decoder stops at that marker and returns the output of the bytes
  before it. A marker at offset 0 is never examined (C10): here it is followed by
  \<^verbatim>\<open>-Z\<close>, which selects no term, and the decoder converts the marker and all
  that follows as data.
\<close>

theorem marker_at_cursor_is_not_examined:
  "iso2022EscSelectCharset ''-Z'' = Some [] \<and>
   convertCharStringToUTF8 sample_iconv [''ISO 2022 IR 6'', ''ISO 2022 IR 100'']
     [ESC, CHR ''-'', CHR ''Z'', CHR ''A''] = Inr [CHR 0x1B, CHR ''-'', CHR ''Z'', CHR ''A'']"
  by code_simp

text \<open>
  C4, amended: at a marker the scan stops at (the first marker at an offset beyond
  \<^verbatim>\<open>fragmentStart\<close>), when the bytes after it select a term that is empty, that
  has no converter, or that is not in the working set, the loop ends there: the result
  is the output so far followed by what the converter wrote for the fragment before the
  marker, and nothing else. This holds from every state of the loop. On the working
  set \<^verbatim>\<open>ISO 2022 IR 6\<close>, \<^verbatim>\<open>ISO 2022 IR 100\<close> and the input
  \<^verbatim>\<open>AB\<close>, ESC, \<^verbatim>\<open>-Z\<close> the decoder returns \<^verbatim>\<open>AB\<close>, with any
  converter library whose ASCII converter opens and copies \<^verbatim>\<open>AB\<close> (the room
  is 20 bytes, four times the five bytes of the input).
\<close>

theorem decode_aborts_at_bad_switch:
  "(fragmentStart < length str \<and>
    fragmentEnd = findEsc str (length str) (fragmentStart + 1) \<and>
    fragmentEnd < length str \<and>
    iso2022EscSelectCharset (drop (fragmentEnd + 1) copiedStr) = Some nextTerm \<and>
    (nextTerm = [] \<or> definedTermToIconvCharset nextTerm = None \<or> nextTerm \<notin> set m_charsets)
    \<longrightarrow>
      scan api m_charsets str copiedStr cd fragmentStart out outbytesleft =
        Some (out @ take outbytesleft
                      (iconv api cd
                         (take (fragmentEnd - fragmentStart) (drop fragmentStart copiedStr))
                         outbytesleft))) \<and>
   (iconv_open api ASCII = Some cd0 \<and> iconv api cd0 ''AB'' 20 = ''AB''
    \<longrightarrow>
      convertCharStringToUTF8 api [''ISO 2022 IR 6'', ''ISO 2022 IR 100'']
        [CHR ''A'', CHR ''B'', ESC, CHR ''-'', CHR ''Z''] = Inr ''AB'')"
proof (intro conjI impI)
  assume a: "fragmentStart < length str \<and>
    fragmentEnd = findEsc str (length str) (fragmentStart + 1) \<and>
    fragmentEnd < length str \<and>
    iso2022EscSelectCharset (drop (fragmentEnd + 1) copiedStr) = Some nextTerm \<and>
    (nextTerm = [] \<or> definedTermToIconvCharset nextTerm = None \<or> nextTerm \<notin> set m_charsets)"
  then have lt: "fragmentStart < length str"
    and fe: "findEsc str (length str) (fragmentStart + 1) = fragmentEnd"
    and fe_lt: "fragmentEnd < length str"
    and sel: "iso2022EscSelectCharset (drop (fragmentEnd + 1) copiedStr) = Some nextTerm"
    and bad: "definedTermToIconvCharset nextTerm = None \<or> nextTerm \<notin> set m_charsets"
    using definedTerm_empty by auto
  let ?written = "take outbytesleft
                    (iconv api cd
                       (take (fragmentEnd - fragmentStart) (drop fragmentStart copiedStr))
                       outbytesleft)"
  have "afterFragment api m_charsets str copiedStr cd fragmentEnd (out @ ?written)
          (outbytesleft - length ?written) = Some (out @ ?written)"
    using fe_lt sel bad by (rule afterFragment_bail)
  with lt show "scan api m_charsets str copiedStr cd fragmentStart out outbytesleft =
      Some (out @ ?written)"
    by (subst scan_unfold) (simp only: fe if_True Let_def)
next
  let ?str = "[CHR ''A'', CHR ''B'', ESC, CHR ''-'', CHR ''Z'']"
  let ?cs = "[''ISO 2022 IR 6'', ''ISO 2022 IR 100'']"
  assume b: "iconv_open api ASCII = Some cd0 \<and> iconv api cd0 ''AB'' 20 = ''AB''"
  have t0: "definedTermToIconvCharset (?cs ! 0) = Some ASCII"
    by (simp add: definedTermToIconvCharset_def)
  have cp: "strncpy ?str (length ?str) = ?str"
    by (rule strncpy_no_NUL) (simp add: NUL_def ESC_def)
  have fe: "findEsc ?str (length ?str) (0 + 1) = 2"
    by (simp add: findEsc.simps ESC_def)
  have sel: "iso2022EscSelectCharset (drop (2 + 1) ?str) = Some []"
    by (simp add: seq_eval)
  have "scan api ?cs ?str ?str cd0 0 [] 20 =
      Some ([] @ take 20 (iconv api cd0 (take (2 - 0) (drop 0 ?str)) 20))"
    using sel definedTerm_empty
    by (subst scan_unfold, simp only: fe Let_def) (simp add: afterFragment_bail)
  with b have "scan api ?cs ?str ?str cd0 0 [] 20 = Some ''AB''" by simp
  moreover have "convertCharStringToUTF8 api ?cs ?str =
      (case scan api ?cs ?str (strncpy ?str (length ?str)) cd0 0 [] (4 * length ?str) of
         None \<Rightarrow> Inl OutOfBounds | Some result \<Rightarrow> Inr (c_str result))"
    using convert_room [of ?cs ASCII api cd0 ?str] t0 b by simp
  ultimately show "convertCharStringToUTF8 api ?cs ?str = Inr ''AB''"
    by (simp only: cp) (simp add: c_str_def NUL_def)
qed

theorem decode_aborts_at_bad_switch_witness:
  "findEsc [CHR ''A'', CHR ''B'', ESC, CHR ''-'', CHR ''Z''] 5 1 = 2 \<and>
   iso2022EscSelectCharset (drop 3 [CHR ''A'', CHR ''B'', ESC, CHR ''-'', CHR ''Z'']) = Some [] \<and>
   iconv_open sample_iconv ASCII = Some ''ASCII'' \<and>
   iconv sample_iconv ''ASCII'' ''AB'' 20 = ''AB'' \<and>
   scan sample_iconv [''ISO 2022 IR 6'', ''ISO 2022 IR 100'']
     [CHR ''A'', CHR ''B'', ESC, CHR ''-'', CHR ''Z'']
     [CHR ''A'', CHR ''B'', ESC, CHR ''-'', CHR ''Z''] ''ASCII'' 0 [] 20 = Some ''AB'' \<and>
   convertCharStringToUTF8 sample_iconv [''ISO 2022 IR 6'', ''ISO 2022 IR 100'']
     [CHR ''A'', CHR ''B'', ESC, CHR ''-'', CHR ''Z''] = Inr ''AB''"
proof -
  let ?str = "[CHR ''A'', CHR ''B'', ESC, CHR ''-'', CHR ''Z'']"
  let ?cs = "[''ISO 2022 IR 6'', ''ISO 2022 IR 100'']"
  have fe: "findEsc ?str 5 1 = 2"
    by (simp add: findEsc.simps ESC_def)
  have sel: "iso2022EscSelectCharset (drop 3 ?str) = Some []"
    by (simp add: seq_eval)
  have op: "iconv_open sample_iconv ASCII = Some ''ASCII''"
    by (simp add: sample_iconv_def ASCII_def)
  have cv: "iconv sample_iconv ''ASCII'' ''AB'' 20 = ''AB''"
    by (simp add: sample_iconv_def)
  note w = decode_aborts_at_bad_switch [where fragmentStart = 0 and str = ?str
      and fragmentEnd = 2 and copiedStr = ?str and nextTerm = "[]" and m_charsets = ?cs
      and api = sample_iconv and cd = "''ASCII''" and out = "[]" and outbytesleft = 20
      and ?cd0.0 = "''ASCII''"]
  have hyp: "0 < length ?str \<and> 2 = findEsc ?str (length ?str) (0 + 1) \<and> 2 < length ?str \<and>
      iso2022EscSelectCharset (drop (2 + 1) ?str) = Some [] \<and>
      ([] = [] \<or> definedTermToIconvCharset [] = None \<or> [] \<notin> set ?cs)"
    using sel by (simp add: findEsc.simps ESC_def)
  from w hyp have "scan sample_iconv ?cs ?str ?str ''ASCII'' 0 [] 20 =
      Some ([] @ take 20 (iconv sample_iconv ''ASCII'' (take (2 - 0) (drop 0 ?str)) 20))"
    by blast
  then have s: "scan sample_iconv ?cs ?str ?str ''ASCII'' 0 [] 20 = Some ''AB''"
    using cv by simp
  have c: "convertCharStringToUTF8 sample_iconv ?cs ?str = Inr ''AB''"
    using w op cv by blast
  from fe sel op cv s c show ?thesis by blast
qed

text \<open>
  C5, as stated: with one member in the working set the decoder converts every input.
  The size of the output buffer is held in an \<^verbatim>\<open>int\<close>: for an input of
  \<open>2 ^ 29\<close> bytes \<^verbatim>\<open>len * 4\<close> does not fit, \<^verbatim>\<open>utf8len + 1\<close> is
  negative and \<^verbatim>\<open>new char[utf8len + 1]\<close> throws before anything is converted.
\<close>

theorem single_charset_needs_int_sized_buffer:
  "convertCharStringToUTF8 sample_iconv [''ISO_IR 100''] (replicate (2 ^ 29) (CHR ''A'')) =
     Inl BadAlloc"
  by (simp add: convertCharStringToUTF8_def definedTermToIconvCharset_def sample_iconv_def
      int_of_size_t_def)

text \<open>
  C5, amended: with exactly one member in the working set (whose converter is known and
  opens) and an input shorter than \<open>2 ^ 29\<close> bytes, the decoder gives the whole
  buffer to that converter in one call, with room for four bytes of output per byte of
  input: the result is what the call wrote, up to its first NUL, and no escape marker
  is looked for, whatever the bytes are. The buffer is the \<^verbatim>\<open>strncpy\<close> copy of
  the input, which is the input itself when the input has no NUL byte.
\<close>

theorem single_charset_converts_whole_input:
  assumes "length m_charsets = 1"
    and "definedTermToIconvCharset (m_charsets ! 0) = Some initialCharset"
    and "iconv_open api initialCharset = Some cd"
    and "4 * length str < 2 ^ 31"
  shows "convertCharStringToUTF8 api m_charsets str =
           Inr (takeWhile (\<lambda>c. c \<noteq> CHR 0x00)
                  (take (4 * length str)
                     (iconv api cd (strncpy str (length str)) (4 * length str)))) \<and>
         (CHR 0x00 \<notin> set str \<longrightarrow>
           convertCharStringToUTF8 api m_charsets str =
             Inr (takeWhile (\<lambda>c. c \<noteq> CHR 0x00)
                    (take (4 * length str) (iconv api cd str (4 * length str)))))"
proof -
  from assms(1) have "m_charsets \<noteq> []" by auto
  from convert_room [OF this assms(2-4)] assms(1)
  have "convertCharStringToUTF8 api m_charsets str =
      Inr (takeWhile (\<lambda>c. c \<noteq> CHR 0x00)
             (take (4 * length str)
                (iconv api cd (strncpy str (length str)) (4 * length str))))"
    by (simp add: c_str_def NUL_def)
  moreover have "CHR 0x00 \<notin> set str \<Longrightarrow> strncpy str (length str) = str"
    using strncpy_no_NUL [of str] by (simp add: NUL_def)
  ultimately show ?thesis by simp
qed

theorem single_charset_converts_whole_input_witness:
  "length [''ISO_IR 100''] = 1 \<and>
   definedTermToIconvCharset ([''ISO_IR 100''] ! 0) = Some ''ISO-8859-1'' \<and>
   iconv_open sample_iconv ''ISO-8859-1'' = Some ''ISO-8859-1'' \<and>
   CHR 0x00 \<notin> set [CHR ''A'', CHR 0x1B, CHR ''-'', CHR ''Z'', CHR 0xE9] \<and>
   convertCharStringToUTF8 sample_iconv [''ISO_IR 100'']
       [CHR ''A'', CHR 0x1B, CHR ''-'', CHR ''Z'', CHR 0xE9] =
     Inr [CHR ''A'', CHR 0x1B, CHR ''-'', CHR ''Z'', CHR 0xC3, CHR 0xA9] \<and>
   strncpy [CHR ''A'', CHR 0x1B, CHR 0x00, CHR ''B''] 4 =
     [CHR ''A'', CHR 0x1B, CHR 0x00, CHR 0x00] \<and>
   convertCharStringToUTF8 sample_iconv [''ISO_IR 100'']
       [CHR ''A'', CHR 0x1B, CHR 0x00, CHR ''B''] = Inr [CHR ''A'', CHR 0x1B]"
proof -
  let ?s1 = "[CHR ''A'', CHR 0x1B, CHR ''-'', CHR ''Z'', CHR 0xE9]"
  let ?s2 = "[CHR ''A'', CHR 0x1B, CHR 0x00, CHR ''B'']"
  have h1: "length [''ISO_IR 100''] = 1" by simp
  have h2: "definedTermToIconvCharset ([''ISO_IR 100''] ! 0) = Some ''ISO-8859-1''"
    by (simp add: definedTermToIconvCharset_def)
  have h3: "iconv_open sample_iconv ''ISO-8859-1'' = Some ''ISO-8859-1''"
    by (simp add: sample_iconv_def)
  have b1: "4 * length ?s1 < 2 ^ 31" and b2: "4 * length ?s2 < 2 ^ 31" by simp_all
  have h4: "CHR 0x00 \<notin> set ?s1" by simp
  have cp: "strncpy ?s2 4 = [CHR ''A'', CHR 0x1B, CHR 0x00, CHR 0x00]"
    by code_simp
  have e1: "takeWhile (\<lambda>c. c \<noteq> CHR 0x00)
             (take (4 * length ?s1) (iconv sample_iconv ''ISO-8859-1'' ?s1 (4 * length ?s1)))
      = [CHR ''A'', CHR 0x1B, CHR ''-'', CHR ''Z'', CHR 0xC3, CHR 0xA9]"
    by code_simp
  have e2: "takeWhile (\<lambda>c. c \<noteq> CHR 0x00)
             (take (4 * length ?s2)
                (iconv sample_iconv ''ISO-8859-1'' (strncpy ?s2 (length ?s2)) (4 * length ?s2)))
      = [CHR ''A'', CHR 0x1B]"
    by code_simp
  from single_charset_converts_whole_input [OF h1 h2 h3 b1] h4 e1
  have c1: "convertCharStringToUTF8 sample_iconv [''ISO_IR 100''] ?s1 =
      Inr [CHR ''A'', CHR 0x1B, CHR ''-'', CHR ''Z'', CHR 0xC3, CHR 0xA9]"
    by metis
  from single_charset_converts_whole_input [OF h1 h2 h3 b2] e2
  have c2: "convertCharStringToUTF8 sample_iconv [''ISO_IR 100''] ?s2 =
      Inr [CHR ''A'', CHR 0x1B]"
    by metis
  from h1 h2 h3 h4 cp c1 c2 show ?thesis by blast
qed



text \<open>
  C7. The value \<^verbatim>\<open>\ISO_IR 100\<close> gives the working set \<^verbatim>\<open>ISO_IR 6\<close>,
  \<^verbatim>\<open>ISO 2022 IR 6\<close>, \<^verbatim>\<open>ISO_IR 100\<close>, in that order: the default term, the
  default switching term and the declared term. (The trim of the empty first token
  reads the byte before the token on the way, which is C3.)
\<close>

theorem setSpecificCharacterSet_leading_empty_token:
  "setSpecificCharacterSet (CHR 0x5C # ''ISO_IR 100'') =
     Inr [''ISO_IR 6'', ''ISO 2022 IR 6'', ''ISO_IR 100''] \<and>
   [''ISO_IR 6'', ''ISO 2022 IR 6'', ''ISO_IR 100''] =
     [DEFAULT_ENCODING, DEFAULT_ISO_2022_ENCODING, ''ISO_IR 100'']"
  by (simp add: parse_eval trim_eval)

text \<open>
  C8. The empty attribute value gives the working set of exactly one element, the
  default term \<^verbatim>\<open>ISO_IR 6\<close>, which is not the switching spelling.
\<close>

theorem setSpecificCharacterSet_empty_value:
  "setSpecificCharacterSet [] = Inr [DEFAULT_ENCODING] \<and> DEFAULT_ENCODING = ''ISO_IR 6''
   \<and> DEFAULT_ENCODING \<noteq> DEFAULT_ISO_2022_ENCODING"
  by (simp add: parse_eval)

text \<open>
  C9, as stated: the first byte after the marker decides the length of the sequence.
  It does not: \<^verbatim>\<open>$B\<close> and \<^verbatim>\<open>$(D\<close> start with the same byte and
  have the lengths 2 and 3.
\<close>

theorem iso2022EscSeqLength_first_byte_counterexample:
  "iso2022EscSeqLength ''$B'' = Some 2 \<and> iso2022EscSeqLength ''$(D'' = Some 3 \<and>
   ''$B'' ! 0 = ''$(D'' ! 0"
  by (simp add: seq_eval)

text \<open>
  C9, amended: the length is 3 exactly when the first byte after the marker is
  \<^verbatim>\<open>$\<close> and the second one lies between \<^verbatim>\<open>(\<close> and \<^verbatim>\<open>/\<close>
  (the codes 40 to 47); in every other case it is 2. The second byte is read only after
  a first byte \<^verbatim>\<open>$\<close>.
\<close>

theorem iso2022EscSeqLength_by_two_bytes:
  "iso2022EscSeqLength seq =
     (case seq of
        [] \<Rightarrow> None
      | b0 # rest \<Rightarrow>
          if b0 \<noteq> CHR ''$'' then Some 2
          else (case rest of
                  [] \<Rightarrow> None
                | b1 # _ \<Rightarrow>
                    Some (if (40::nat) \<le> of_char b1 \<and> (of_char b1 :: nat) \<le> 47 then 3
                          else 2)))"
  by (auto simp: seq_eval split: list.splits)

text \<open>
  C10, as stated: whenever the working set has two or more members and the input begins
  with the marker, the marker and the bytes up to the next marker are converted as
  data. For an input of \<open>2 ^ 29\<close> bytes the buffer size does not fit its
  \<^verbatim>\<open>int\<close> and the allocation throws before the loop is entered.
\<close>

theorem marker_at_offset_0_needs_int_sized_buffer:
  "convertCharStringToUTF8 sample_iconv [''ISO 2022 IR 6'', ''ISO 2022 IR 100'']
     (ESC # replicate (2 ^ 29 - 1) (CHR ''A'')) = Inl BadAlloc"
  by (simp add: convertCharStringToUTF8_def definedTermToIconvCharset_def sample_iconv_def
      int_of_size_t_def ASCII_def)

text \<open>
  C10, amended: with two or more members in the working set, the marker as the first
  byte of the input and an input shorter than \<open>2 ^ 29\<close> bytes, the first search for
  a marker starts at offset 1: the first fragment runs from offset 0 to the next marker
  (or to the end), it is given to the converter of the first member, and the escape
  block is entered, if at all, only at that next marker.
\<close>

theorem marker_at_offset_0_is_data:
  assumes "2 \<le> length m_charsets"
    and "definedTermToIconvCharset (m_charsets ! 0) = Some initialCharset"
    and "iconv_open api initialCharset = Some cd"
    and "str = ESC # rest"
    and "4 * length str < 2 ^ 31"
    and "copiedStr = strncpy str (length str)"
    and "fragmentEnd = findEsc str (length str) (0 + 1)"
    and "written = take (4 * length str) (iconv api cd (take fragmentEnd copiedStr) (4 * length str))"
  shows "fragmentEnd = 1 + length (takeWhile (\<lambda>c. c \<noteq> ESC) rest) \<and>
         convertCharStringToUTF8 api m_charsets str =
           (case afterFragment api m_charsets str copiedStr cd fragmentEnd written
                   (4 * length str - length written) of
              None \<Rightarrow> Inl OutOfBounds
            | Some result \<Rightarrow> Inr (takeWhile (\<lambda>c. c \<noteq> CHR 0x00) result)) \<and>
         (CHR 0x00 \<notin> set str \<longrightarrow>
            take fragmentEnd copiedStr = ESC # takeWhile (\<lambda>c. c \<noteq> ESC) rest)"
proof (intro conjI impI)
  have "findEsc str (length str) 1 = 1 + length (takeWhile (\<lambda>c. c \<noteq> ESC) (drop 1 str))"
    using assms(4) by (intro findEsc_eq) simp
  with assms(4,7) show fe: "fragmentEnd = 1 + length (takeWhile (\<lambda>c. c \<noteq> ESC) rest)"
    by simp
  from assms(1) have ne: "m_charsets \<noteq> []" and n1: "length m_charsets \<noteq> 1" by auto
  have "convertCharStringToUTF8 api m_charsets str =
      (case scan api m_charsets str copiedStr cd 0 [] (4 * length str) of
         None \<Rightarrow> Inl OutOfBounds | Some result \<Rightarrow> Inr (c_str result))"
    unfolding assms(6) using convert_room [OF ne assms(2,3,5)] n1 by simp
  also have "scan api m_charsets str copiedStr cd 0 [] (4 * length str) =
      afterFragment api m_charsets str copiedStr cd fragmentEnd written
        (4 * length str - length written)"
    unfolding assms(7,8) using assms(4) by (subst scan_unfold) (simp add: Let_def)
  finally show "convertCharStringToUTF8 api m_charsets str =
           (case afterFragment api m_charsets str copiedStr cd fragmentEnd written
                   (4 * length str - length written) of
              None \<Rightarrow> Inl OutOfBounds
            | Some result \<Rightarrow> Inr (takeWhile (\<lambda>c. c \<noteq> CHR 0x00) result))"
    unfolding c_str_def NUL_def .
  assume "CHR 0x00 \<notin> set str"
  then have "copiedStr = str" using assms(6) strncpy_no_NUL [of str] by (simp add: NUL_def)
  with fe assms(4) show "take fragmentEnd copiedStr = ESC # takeWhile (\<lambda>c. c \<noteq> ESC) rest"
    by (simp add: takeWhile_eq_take [symmetric])
qed

theorem marker_at_offset_0_is_data_witness:
  "2 \<le> length [''ISO 2022 IR 6'', ''ISO 2022 IR 100''] \<and>
   definedTermToIconvCharset ([''ISO 2022 IR 6'', ''ISO 2022 IR 100''] ! 0) = Some ''ASCII'' \<and>
   iconv_open sample_iconv ''ASCII'' = Some ''ASCII'' \<and>
   findEsc [ESC, CHR ''-'', CHR ''A'', CHR ''x'', ESC, CHR ''-'', CHR ''A'', CHR 0xE9] 8 1 = 4 \<and>
   convertCharStringToUTF8 sample_iconv [''ISO 2022 IR 6'', ''ISO 2022 IR 100'']
     [ESC, CHR ''-'', CHR ''A'', CHR ''x'', ESC, CHR ''-'', CHR ''A'', CHR 0xE9] =
   Inr [CHR 0x1B, CHR ''-'', CHR ''A'', CHR ''x'', CHR 0xC3, CHR 0xA9]"
proof -
  let ?str = "[ESC, CHR ''-'', CHR ''A'', CHR ''x'', ESC, CHR ''-'', CHR ''A'', CHR 0xE9]"
  let ?cs = "[''ISO 2022 IR 6'', ''ISO 2022 IR 100'']"
  let ?fe = "findEsc ?str (length ?str) (0 + 1)"
  let ?cp = "strncpy ?str (length ?str)"
  let ?w = "take (4 * length ?str) (iconv sample_iconv ''ASCII'' (take ?fe ?cp) (4 * length ?str))"
  have h1: "2 \<le> length ?cs" by simp
  have h2: "definedTermToIconvCharset (?cs ! 0) = Some ''ASCII''"
    by (simp add: definedTermToIconvCharset_def ASCII_def)
  have h3: "iconv_open sample_iconv ''ASCII'' = Some ''ASCII''"
    by (simp add: sample_iconv_def)
  have h5: "4 * length ?str < 2 ^ 31" by simp
  have fe: "findEsc ?str 8 1 = 4" by code_simp
  have e: "(case afterFragment sample_iconv ?cs ?str ?cp ''ASCII'' ?fe ?w
                  (4 * length ?str - length ?w) of
              None \<Rightarrow> Inl OutOfBounds
            | Some result \<Rightarrow> Inr (takeWhile (\<lambda>c. c \<noteq> CHR 0x00) result)) =
      Inr [CHR 0x1B, CHR ''-'', CHR ''A'', CHR ''x'', CHR 0xC3, CHR 0xA9]"
    by code_simp
  from marker_at_offset_0_is_data [OF h1 h2 h3 refl h5 refl refl refl]
  have "convertCharStringToUTF8 sample_iconv ?cs ?str =
      (case afterFragment sample_iconv ?cs ?str ?cp ''ASCII'' ?fe ?w
                  (4 * length ?str - length ?w) of
              None \<Rightarrow> Inl OutOfBounds
            | Some result \<Rightarrow> Inr (takeWhile (\<lambda>c. c \<noteq> CHR 0x00) result))"
    by simp
  with e h1 h2 h3 fe show ?thesis by simp
qed

end
